theory Spec2Isabelle
  imports Main "HOL-Library.Word"
begin

unbundle bit_operations_syntax

section \<open>The generated client stub \<open>Hello\<close> of wrpc-examples:hello/handler\<close>

text \<open>
  The source is the Go file
  \<^verbatim>\<open>examples/go/hello-client/bindings/wrpc_examples/hello/handler/bindings.wrpc.go\<close>.
  It holds one function, \<^verbatim>\<open>Hello\<close>, which invokes the remote function, closes the
  outgoing stream, decodes one string (a varint length followed by the bytes) from the
  incoming stream and closes that stream in a deferred call.

  The streams and the invoker are Go interface values implemented outside this file. They
  are modelled as records of functions over an external world state \<open>'s\<close>, which every
  call receives and returns. Every call on a collaborator and every \<^verbatim>\<open>slog\<close> call is
  also appended to a list of events, so that how often a method is called can be stated.
\<close>

subsection \<open>Data: bytes, strings, errors\<close>

type_synonym byte = "8 word"

text \<open>A Go \<^verbatim>\<open>string\<close> is a sequence of bytes; \<^verbatim>\<open>string(buf)\<close> keeps the bytes of \<^verbatim>\<open>buf\<close>.\<close>

type_synonym gostring = "byte list"

text \<open>
  Go errors: the two sentinels of package \<^verbatim>\<open>io\<close> the source names, any other error of a
  collaborator, \<^verbatim>\<open>errors.New(msg)\<close> and \<^verbatim>\<open>fmt.Errorf(format, err)\<close> with one \<^verbatim>\<open>%w\<close>
  operand. \<^verbatim>\<open>err == io.EOF\<close> is equality of these values.
\<close>

datatype error =
    EOF
  | ErrUnexpectedEOF
  | Other string
  | New string
  | Errorf string error

subsection \<open>The collaborators\<close>

text \<open>
  \<^verbatim>\<open>ReadByte() (byte, error)\<close>: the byte, or the error.
  \<^verbatim>\<open>Read(p) (n int, err error)\<close>: given \<^verbatim>\<open>len(p)\<close>, the bytes the reader stored at the
  front of \<^verbatim>\<open>p\<close>, the count \<open>n\<close> it reports and the error it reports. Go allows \<open>n\<close> below
  \<^verbatim>\<open>len(p)\<close> with a nil error, and \<open>n > 0\<close> together with an error.
  \<^verbatim>\<open>Close() error\<close>: the error, if any.
\<close>

record 's IndexWriteCloser =
  Close :: "'s \<Rightarrow> error option \<times> 's"

record 's IndexReadCloser =
  ReadByte :: "'s \<Rightarrow> (error + byte) \<times> 's"
  Read :: "nat \<Rightarrow> 's \<Rightarrow> (byte list \<times> int \<times> error option) \<times> 's"
  Close :: "'s \<Rightarrow> error option \<times> 's"

text \<open>
  \<^verbatim>\<open>Invoke(ctx, instance, name, buf, paths...)\<close> returns the two streams or an error. The
  context only carries cancellation, which the collaborators observe, and is left out.
\<close>

record 's Invoker =
  Invoke :: "string \<Rightarrow> string \<Rightarrow> byte list \<Rightarrow> 's
               \<Rightarrow> (error + 's IndexWriteCloser \<times> 's IndexReadCloser) \<times> 's"

subsection \<open>Events\<close>

datatype level = Debug | Error

datatype attr = AInt int | AU32 "32 word" | AStr string | AErr error

datatype event =
    Slog level string "(string \<times> attr) list"
  | Call_Invoke string string
  | Call_Close_w
  | Call_ReadByte
  | Call_Read nat
  | Call_Close_r

subsection \<open>\<^verbatim>\<open>utf8.Valid\<close>\<close>

text \<open>
  \<^verbatim>\<open>utf8.Valid\<close> belongs to Go's standard library. It accepts exactly the well-formed
  byte sequences: a byte below \<^verbatim>\<open>0x80\<close>, or a leading byte whose table entry gives the size
  of the sequence and the range accepted for the second byte, followed by continuation
  bytes in \<^verbatim>\<open>0x80..0xBF\<close>. \<open>first\<close> is that table (\<open>None\<close> for an illegal leading byte).
\<close>

definition first :: "byte \<Rightarrow> (nat \<times> byte \<times> byte) option" where
  "first b =
     (if 0xC2 \<le> b \<and> b \<le> 0xDF then Some (2, 0x80, 0xBF)
      else if b = 0xE0 then Some (3, 0xA0, 0xBF)
      else if 0xE1 \<le> b \<and> b \<le> 0xEC then Some (3, 0x80, 0xBF)
      else if b = 0xED then Some (3, 0x80, 0x9F)
      else if 0xEE \<le> b \<and> b \<le> 0xEF then Some (3, 0x80, 0xBF)
      else if b = 0xF0 then Some (4, 0x90, 0xBF)
      else if 0xF1 \<le> b \<and> b \<le> 0xF3 then Some (4, 0x80, 0xBF)
      else if b = 0xF4 then Some (4, 0x80, 0x8F)
      else None)"

definition continuation :: "byte \<Rightarrow> bool" where
  "continuation c = (0x80 \<le> c \<and> c \<le> 0xBF)"

fun utf8_Valid :: "byte list \<Rightarrow> bool" where
  "utf8_Valid [] = True"
| "utf8_Valid (b # p) =
     (if b < 0x80 then utf8_Valid p
      else case first b of
        None \<Rightarrow> False
      | Some (sz, lo, hi) \<Rightarrow>
          if length (b # p) < sz then False
          else if p ! 0 < lo \<or> hi < p ! 0 then False
          else if sz = 2 then utf8_Valid (drop 1 p)
          else if \<not> continuation (p ! 1) then False
          else if sz = 3 then utf8_Valid (drop 2 p)
          else if \<not> continuation (p ! 2) then False
          else utf8_Valid (drop 3 p))"

subsection \<open>The string decoder: the function literal applied to \<^verbatim>\<open>r__\<close>\<close>

text \<open>
  The block of the branch \<^verbatim>\<open>if b < 0x80\<close> after \<open>x\<close> is complete: allocate \<open>x\<close> zero bytes,
  log, call \<^verbatim>\<open>Read\<close> once, drop the count it reports, fail on its error, validate.
  The buffer after the call holds what the reader stored, cut to the buffer's length, and
  zeros behind it.
\<close>

definition read_string_bytes ::
  "'s IndexReadCloser \<Rightarrow> 32 word \<Rightarrow> 's \<Rightarrow> (gostring \<times> error option) \<times> 's \<times> event list" where
  "read_string_bytes r x \<sigma> =
     (let buf0 = replicate (unat x) (0 :: byte);
          ev = [Slog Debug ''reading string bytes'' [(''len'', AU32 x)], Call_Read (length buf0)];
          ((stored, n, err), \<sigma>') = Read r (length buf0) \<sigma>;
          buf = take (length buf0) stored @ drop (length stored) buf0
      in case err of
           Some e \<Rightarrow> (([], Some (Errorf ''failed to read string bytes: %w'' e)), \<sigma>', ev)
         | None \<Rightarrow>
             if \<not> utf8_Valid buf
             then ((buf, Some (New ''string is not valid UTF-8'')), \<sigma>', ev)
             else ((buf, None), \<sigma>', ev))"

text \<open>
  The loop \<^verbatim>\<open>for i := 0; i < 5; i++\<close> with \<open>x :: uint32\<close> and \<open>s :: uint8\<close>. Its result is
  \<open>Some\<close> of the values of a \<^verbatim>\<open>return\<close> inside the loop, or \<open>None\<close> when the loop ends
  because \<open>i < 5\<close> fails.
\<close>

definition byte_events :: "nat \<Rightarrow> event list" where
  "byte_events i = [Slog Debug ''reading string length byte'' [(''i'', AInt (int i))], Call_ReadByte]"

function length_loop ::
  "'s IndexReadCloser \<Rightarrow> nat \<Rightarrow> 32 word \<Rightarrow> 8 word \<Rightarrow> 's
     \<Rightarrow> (gostring \<times> error option) option \<times> 's \<times> event list" where
  "length_loop r i x s \<sigma> =
     (if i < 5 then
        (case ReadByte r \<sigma> of
           (Inl err, \<sigma>1) \<Rightarrow>
             (Some ([], Some (Errorf ''failed to read string length byte: %w''
                                (if i > 0 \<and> err = EOF then ErrUnexpectedEOF else err))),
              \<sigma>1, byte_events i)
         | (Inr b, \<sigma>1) \<Rightarrow>
             if s = 28 \<and> b > 0x0f then
               (Some ([], Some (New ''string length overflows a 32-bit integer'')),
                \<sigma>1, byte_events i)
             else if b < 0x80 then
               (case read_string_bytes r (x OR push_bit (unat s) (ucast b)) \<sigma>1 of
                  (res, \<sigma>2, ev) \<Rightarrow> (Some res, \<sigma>2, byte_events i @ ev))
             else
               (case length_loop r (i + 1) (x OR push_bit (unat s) (ucast (b AND 0x7f))) (s + 7) \<sigma>1 of
                  (res, \<sigma>2, ev) \<Rightarrow> (res, \<sigma>2, byte_events i @ ev)))
      else (None, \<sigma>, []))"
  by pat_completeness auto
termination
  by (relation "measure (\<lambda>(r, i, x, s, \<sigma>). 5 - i)") auto

text \<open>The function literal: the loop, then the statement after it.\<close>

definition read_string ::
  "'s IndexReadCloser \<Rightarrow> 's \<Rightarrow> (gostring \<times> error option) \<times> 's \<times> event list" where
  "read_string r \<sigma> =
     (case length_loop r 0 0 0 \<sigma> of
        (Some res, \<sigma>', ev) \<Rightarrow> (res, \<sigma>', ev)
      | (None, \<sigma>', ev) \<Rightarrow>
          (([], Some (New ''string length overflows a 32-bit integer'')), \<sigma>', ev))"

subsection \<open>\<^verbatim>\<open>Hello\<close>\<close>

text \<open>
  The named results \<open>r0__\<close> and \<open>err__\<close> start as the empty string and nil. The deferred
  function runs after the results are set and assigns neither.
\<close>

definition Hello :: "'s Invoker \<Rightarrow> 's \<Rightarrow> (gostring \<times> error option) \<times> 's \<times> event list" where
  "Hello wrpc \<sigma> =
     (case Invoke wrpc ''wrpc-examples:hello/handler'' ''hello'' [] \<sigma> of
        (Inl err, \<sigma>1) \<Rightarrow>
          (([], Some (Errorf ''failed to invoke `hello`: %w'' err)), \<sigma>1,
           [Call_Invoke ''wrpc-examples:hello/handler'' ''hello''])
      | (Inr (w, r), \<sigma>1) \<Rightarrow>
          (case IndexWriteCloser.Close w \<sigma>1 of (cErr, \<sigma>2) \<Rightarrow>
           case read_string r \<sigma>2 of ((r0, err), \<sigma>3, ev_read) \<Rightarrow>
           case IndexReadCloser.Close r \<sigma>3 of (closeErr, \<sigma>4) \<Rightarrow>
             ((r0, case err of
                     Some e \<Rightarrow> Some (Errorf ''failed to read result 0: %w'' e)
                   | None \<Rightarrow> None),
              \<sigma>4,
              [Call_Invoke ''wrpc-examples:hello/handler'' ''hello'', Call_Close_w]
              @ (case cErr of
                   Some e \<Rightarrow> [Slog Debug ''failed to close outgoing stream''
                                [(''instance'', AStr ''wrpc-examples:hello/handler''),
                                 (''name'', AStr ''hello''), (''err'', AErr e)]]
                 | None \<Rightarrow> [])
              @ ev_read
              @ [Call_Close_r]
              @ (case closeErr of
                   Some e \<Rightarrow> [Slog Error ''failed to close reader''
                                [(''instance'', AStr ''wrpc-examples:hello/handler''),
                                 (''name'', AStr ''hello''), (''err'', AErr e)]]
                 | None \<Rightarrow> []))))"

subsection \<open>An in-memory stream\<close>

text \<open>
  A reader over the bytes still unread, behaving as Go's \<^verbatim>\<open>bytes.Reader\<close>: at the end of
  the data \<^verbatim>\<open>ReadByte\<close> and \<^verbatim>\<open>Read\<close> report \<^verbatim>\<open>io.EOF\<close> (also for an empty \<open>p\<close>); otherwise
  \<^verbatim>\<open>Read\<close> copies as many bytes as fit and are left, and reports their count and no error.
  Closing never fails.
\<close>

definition bytes_Reader :: "byte list IndexReadCloser" where
  "bytes_Reader =
     \<lparr> ReadByte = (\<lambda>s. case s of [] \<Rightarrow> (Inl EOF, []) | b # bs \<Rightarrow> (Inr b, bs)),
       Read = (\<lambda>len s. if s = [] then (([], 0, Some EOF), [])
                        else ((take len s, int (min len (length s)), None), drop len s)),
       Close = (\<lambda>s. (None, s)) \<rparr>"

definition discard_Writer :: "byte list IndexWriteCloser" where
  "discard_Writer = \<lparr> IndexWriteCloser.Close = (\<lambda>s. (None, s)) \<rparr>"

definition bytes_Invoker :: "byte list Invoker" where
  "bytes_Invoker = \<lparr> Invoke = (\<lambda>instance name buf s. (Inr (discard_Writer, bytes_Reader), s)) \<rparr>"

text \<open>
  \<open>delivers r \<sigma> bs \<sigma>'\<close>: from state \<open>\<sigma>\<close>, successive calls of \<^verbatim>\<open>ReadByte\<close> return the bytes
  \<open>bs\<close> without error and leave the state \<open>\<sigma>'\<close>.
\<close>

fun delivers :: "'s IndexReadCloser \<Rightarrow> 's \<Rightarrow> byte list \<Rightarrow> 's \<Rightarrow> bool" where
  "delivers r \<sigma> [] \<sigma>' = (\<sigma>' = \<sigma>)"
| "delivers r \<sigma> (b # bs) \<sigma>' =
     (case ReadByte r \<sigma> of
        (Inl err, \<sigma>1) \<Rightarrow> False
      | (Inr c, \<sigma>1) \<Rightarrow> c = b \<and> delivers r \<sigma>1 bs \<sigma>')"

subsection \<open>The encoder of the length prefix\<close>

text \<open>
  Modelled from the spec: the encoder of the length prefix, which is not part of the
  source (the stub only decodes). The spec's words: a little-endian base-128 varint of 1 to 5 bytes for an unsigned value
  up to \<open>2^32 - 1\<close>, bits 0 to 6 of a byte the payload, least-significant group first,
  bit 7 the continuation flag (1 when more bytes follow, 0 on the last byte).
\<close>

function put_uvarint :: "32 word \<Rightarrow> byte list" where
  "put_uvarint x =
     (if x < 0x80 then [ucast x] else (ucast x OR 0x80) # put_uvarint (drop_bit 7 x))"
  by pat_completeness auto
termination
proof (relation "measure unat")
  show "wf (measure (unat :: 32 word \<Rightarrow> nat))"
    by simp
next
  fix x :: "32 word"
  assume "\<not> x < 0x80"
  then have "128 \<le> unat x"
    by (simp add: word_less_nat_alt)
  then have "unat x div 128 < unat x"
    by simp
  then show "(drop_bit 7 x, x) \<in> measure unat"
    by (simp add: drop_bit_eq_div unat_div)
qed

text \<open>The events of \<open>k\<close> iterations of the loop starting at iteration \<open>i\<close>.\<close>

definition length_events :: "nat \<Rightarrow> nat \<Rightarrow> event list" where
  "length_events i k = concat (map byte_events [i..<i + k])"

text \<open>The events of the block that reads the string of \<open>x\<close> bytes.\<close>

definition string_events :: "32 word \<Rightarrow> event list" where
  "string_events x = [Slog Debug ''reading string bytes'' [(''len'', AU32 x)], Call_Read (unat x)]"

text \<open>
  \<open>decodes_length r \<sigma> k x \<sigma>'\<close>: started in state \<open>\<sigma>\<close>, the loop calls \<^verbatim>\<open>ReadByte\<close> exactly
  \<open>k\<close> times, which leaves the state \<open>\<sigma>'\<close>, and there goes on to read a string of \<open>x\<close> bytes.
\<close>

definition decodes_length :: "'s IndexReadCloser \<Rightarrow> 's \<Rightarrow> nat \<Rightarrow> 32 word \<Rightarrow> 's \<Rightarrow> bool" where
  "decodes_length r \<sigma> k x \<sigma>' =
     (length_loop r 0 0 0 \<sigma> =
        (case read_string_bytes r x \<sigma>' of
           (res, \<sigma>2, ev) \<Rightarrow> (Some res, \<sigma>2, length_events 0 k @ ev)))"

declare length_loop.simps [simp del] put_uvarint.simps [simp del]

section \<open>The in-memory stream\<close>

lemma ReadByte_bytes_Reader [simp]:
  "ReadByte bytes_Reader [] = (Inl EOF, [])"
  "ReadByte bytes_Reader (b # bs) = (Inr b, bs)"
  by (simp_all add: bytes_Reader_def)

lemma Read_bytes_Reader [simp]:
  "Read bytes_Reader len [] = (([], 0, Some EOF), [])"
  "Read bytes_Reader len (b # bs) =
     ((take len (b # bs), int (min len (length (b # bs))), None), drop len (b # bs))"
  by (simp_all add: bytes_Reader_def)

lemma Close_bytes_Reader [simp]: "IndexReadCloser.Close bytes_Reader s = (None, s)"
  by (simp add: bytes_Reader_def)

lemma Close_discard_Writer [simp]: "IndexWriteCloser.Close discard_Writer s = (None, s)"
  by (simp add: discard_Writer_def)

lemma Invoke_bytes_Invoker [simp]:
  "Invoke bytes_Invoker instance name buf s = (Inr (discard_Writer, bytes_Reader), s)"
  by (simp add: bytes_Invoker_def)

section \<open>Bytes and shifts\<close>

lemma bit_128_int: "bit (128 :: int) n = (n = 7)"
proof -
  have "(128 :: int) = 2 ^ 7" by simp
  then show ?thesis by (simp only: bit_exp_iff) auto
qed

lemma bit_127_int: "bit (127 :: int) n = (n < 7)"
proof -
  have "(127 :: int) = mask 7" by (simp add: mask_eq_exp_minus_1)
  then show ?thesis by (simp only: bit_mask_iff) auto
qed

lemma payload:
  "(ucast ((ucast (y :: 32 word) OR 0x80 :: byte) AND 0x7f) :: 32 word) = take_bit 7 y"
  by (rule bit_word_eqI) (auto simp add: bit_simps bit_128_int bit_127_int)

lemma recompose: "take_bit 7 (y :: 32 word) OR push_bit 7 (drop_bit 7 y) = y"
proof (rule bit_word_eqI)
  fix n assume "n < LENGTH(32)"
  then show "bit (take_bit 7 y OR push_bit 7 (drop_bit 7 y)) n = bit y n"
    by (cases "n < 7") (auto simp: bit_simps)
qed

lemma ucast_small: "y < 0x80 \<Longrightarrow> (ucast (ucast (y :: 32 word) :: byte) :: 32 word) = y"
  by (simp add: word_unat_eq_iff unsigned_ucast_eq unsigned_take_bit_eq word_less_nat_alt
      take_bit_nat_eq_self)

lemma not_terminal: "\<not> (ucast (y :: 32 word) OR 0x80 :: byte) < 0x80"
  by (simp add: not_less le_word_or1)

lemma terminal: "y < 0x80 \<Longrightarrow> (ucast (y :: 32 word) :: byte) < 0x80"
  by (simp add: word_less_nat_alt unsigned_ucast_eq take_bit_nat_eq_self)

lemma no_overflow: "unat y < 16 \<Longrightarrow> \<not> (ucast (y :: 32 word) :: byte) > 0x0f"
  by (simp add: word_less_nat_alt unsigned_ucast_eq take_bit_nat_eq_self)

text \<open>The shift is seven times the iteration; it is 28 in iteration 4 only.\<close>

lemma shift_28: "unat (s :: byte) = 7 * i \<Longrightarrow> (s = 28) = (i = 4)"
  by (auto simp add: word_unat_eq_iff)

lemma shift_next: "unat (s :: byte) = 7 * i \<Longrightarrow> i < 4 \<Longrightarrow> unat (s + 7) = 7 * (i + 1)"
  by (simp add: unat_word_ariths)

text \<open>
  What is left of the value in iteration \<open>i\<close> has at most \<open>32 - 7 * i\<close> bits: in
  iteration 4 it is below 16, and a value of 128 or more leaves a later iteration.
\<close>

lemma last_iteration: "unat (y :: 32 word) * 2 ^ (7 * i) < 2 ^ 32 \<Longrightarrow> i = 4 \<Longrightarrow> unat y < 16"
  by simp

lemma more_iterations:
  assumes "\<not> (y :: 32 word) < 0x80" and "unat y * 2 ^ (7 * i) < 2 ^ 32" and "i \<le> 4"
  shows "i < 4" and "unat (drop_bit 7 y) * 2 ^ (7 * (i + 1)) < 2 ^ 32"
proof -
  from assms(1) have big: "128 \<le> unat y"
    by (simp add: word_less_nat_alt)
  show "i < 4"
  proof (rule ccontr)
    assume "\<not> i < 4"
    with assms(3) have "i = 4" by simp
    with assms(2) have "unat y < 16" by simp
    with big show False by simp
  qed
  have "unat (drop_bit 7 y) = unat y div 128"
    by (simp add: drop_bit_eq_div unat_div)
  then have "unat (drop_bit 7 y) * 2 ^ (7 * (i + 1)) = (unat y div 128 * 128) * 2 ^ (7 * i)"
    by (simp add: power_add algebra_simps)
  also have "\<dots> \<le> unat y * 2 ^ (7 * i)"
    by (rule mult_le_mono1) simp
  finally show "unat (drop_bit 7 y) * 2 ^ (7 * (i + 1)) < 2 ^ 32"
    using assms(2) by simp
qed

section \<open>The events of the loop\<close>

lemma length_events_Suc: "length_events i (Suc k) = byte_events i @ length_events (Suc i) k"
  by (simp add: length_events_def upt_conv_Cons del: upt_Suc)

lemma length_events_1: "length_events i (Suc 0) = byte_events i"
  by (simp add: length_events_def)

lemma length_events_0: "length_events i 0 = []"
  by (simp add: length_events_def)

lemma length_events_append: "length_events i k @ length_events (i + k) m = length_events i (k + m)"
proof -
  have "[i..<i + (k + m)] = [i..<i + k] @ [i + k..<i + k + m]"
    using upt_add_eq_append [of i "i + k" m] by (simp add: add.assoc)
  then show ?thesis
    by (simp add: length_events_def)
qed

lemma count_byte_events [simp]:
  "count_list (byte_events i) Call_ReadByte = 1"
  "count_list (byte_events i) Call_Close_r = 0"
  by (simp_all add: byte_events_def)

lemma count_Call_Read_length_events [simp]: "count_list (length_events i k) (Call_Read m) = 0"
  by (induction k arbitrary: i) (simp_all add: length_events_0 length_events_Suc byte_events_def)

lemma count_Call_Close_r_events:
  "count_list (length_events i k) Call_Close_r = 0"
  "count_list (string_events x) Call_Close_r = 0"
  by (induction k arbitrary: i)
    (simp_all add: length_events_0 length_events_Suc string_events_def)

section \<open>The block that reads the string\<close>

lemma read_string_bytes_events: "snd (snd (read_string_bytes r x \<sigma>)) = string_events x"
  by (simp add: read_string_bytes_def string_events_def Let_def split_beta split: option.splits)

lemma read_string_bytes_no_ReadByte:
  "count_list (snd (snd (read_string_bytes r x \<sigma>))) Call_ReadByte = 0"
  "count_list (snd (snd (read_string_bytes r x \<sigma>))) Call_Close_r = 0"
  by (simp_all add: read_string_bytes_def Let_def split: prod.splits option.splits)

lemma read_string_bytes_result:
  "fst (read_string_bytes r x \<sigma>) = (str, Some e) \<Longrightarrow> str = [] \<or> e = New ''string is not valid UTF-8''"
  by (auto simp add: read_string_bytes_def Let_def split: prod.splits option.splits if_splits)

lemma read_string_bytes_success:
  "fst (read_string_bytes r x \<sigma>) = (str, None) \<Longrightarrow> utf8_Valid str"
  by (auto simp add: read_string_bytes_def Let_def split: prod.splits option.splits if_splits)

section \<open>One iteration of the loop, and several\<close>

lemma step_error:
  "ReadByte r \<sigma> = (Inl err, \<sigma>1) \<Longrightarrow> i < 5
     \<Longrightarrow> length_loop r i x s \<sigma> =
         (Some ([], Some (Errorf ''failed to read string length byte: %w''
                            (if 0 < i \<and> err = EOF then ErrUnexpectedEOF else err))),
          \<sigma>1, byte_events i)"
  by (simp add: length_loop.simps [of r i])

lemma step_overflow:
  "ReadByte r \<sigma> = (Inr b, \<sigma>1) \<Longrightarrow> i < 5 \<Longrightarrow> s = 28 \<Longrightarrow> 0x0f < b
     \<Longrightarrow> length_loop r i x s \<sigma> =
         (Some ([], Some (New ''string length overflows a 32-bit integer'')), \<sigma>1, byte_events i)"
  by (simp add: length_loop.simps [of r i])

lemma step_terminal:
  "ReadByte r \<sigma> = (Inr b, \<sigma>1) \<Longrightarrow> i < 5 \<Longrightarrow> \<not> (s = 28 \<and> 0x0f < b) \<Longrightarrow> b < 0x80
     \<Longrightarrow> length_loop r i x s \<sigma> =
         (case read_string_bytes r (x OR push_bit (unat s) (ucast b)) \<sigma>1 of
            (res, \<sigma>2, ev) \<Rightarrow> (Some res, \<sigma>2, byte_events i @ ev))"
  by (auto simp add: length_loop.simps [of r i])

lemma step_continue:
  "ReadByte r \<sigma> = (Inr b, \<sigma>1) \<Longrightarrow> i < 5 \<Longrightarrow> \<not> (s = 28 \<and> 0x0f < b) \<Longrightarrow> \<not> b < 0x80
     \<Longrightarrow> length_loop r i x s \<sigma> =
         (case length_loop r (Suc i) (x OR push_bit (unat s) (ucast (b AND 0x7f))) (s + 7) \<sigma>1 of
            (res, \<sigma>2, ev) \<Rightarrow> (res, \<sigma>2, byte_events i @ ev))"
  by (auto simp add: length_loop.simps [of r i])

text \<open>
  Bytes with the continuation bit set, read in iterations below 4, only move the loop on:
  the guard on the shift 28 cannot fire there.
\<close>

lemma loop_continues:
  "delivers r \<sigma> bs \<sigma>' \<Longrightarrow> i + length bs \<le> 4 \<Longrightarrow> unat s = 7 * i \<Longrightarrow> \<forall>b\<in>set bs. 0x80 \<le> b
     \<Longrightarrow> \<exists>x' s'. unat s' = 7 * (i + length bs) \<and>
           length_loop r i x s \<sigma> =
             (case length_loop r (i + length bs) x' s' \<sigma>' of
                (res, \<sigma>2, ev) \<Rightarrow> (res, \<sigma>2, length_events i (length bs) @ ev))"
proof (induction bs arbitrary: i x s \<sigma>)
  case Nil
  then show ?case
    by (auto simp add: length_events_0 split: prod.splits)
next
  case (Cons b bs)
  from Cons.prems(1) obtain \<sigma>1 where rb: "ReadByte r \<sigma> = (Inr b, \<sigma>1)"
    and rest: "delivers r \<sigma>1 bs \<sigma>'"
    by (auto split: prod.splits sum.splits)
  from Cons.prems have i4: "i < 4" and nt: "\<not> b < 0x80"
    by (simp_all add: not_less)
  have s28: "\<not> (s = 28 \<and> 0x0f < b)"
    using Cons.prems(3) i4 shift_28 [of s i] by simp
  let ?x1 = "x OR push_bit (unat s) (ucast (b AND 0x7f))"
  have "unat (s + 7) = 7 * Suc i"
    using shift_next [OF Cons.prems(3) i4] by simp
  with rest Cons.prems obtain x' s' where s': "unat s' = 7 * (Suc i + length bs)"
    and loop: "length_loop r (Suc i) ?x1 (s + 7) \<sigma>1 =
       (case length_loop r (Suc i + length bs) x' s' \<sigma>' of
          (res, \<sigma>2, ev) \<Rightarrow> (res, \<sigma>2, length_events (Suc i) (length bs) @ ev))"
    using Cons.IH [of \<sigma>1 "Suc i" "s + 7" ?x1] by auto
  from i4 have "length_loop r i x s \<sigma> =
      (case length_loop r (i + length (b # bs)) x' s' \<sigma>' of
         (res, \<sigma>2, ev) \<Rightarrow> (res, \<sigma>2, length_events i (length (b # bs)) @ ev))"
    by (simp add: step_continue [OF rb _ s28 nt] loop length_events_Suc split: prod.splits)
  with s' show ?case
    by (intro exI [of _ x'] exI [of _ s']) simp
qed

lemma loop_continues_from_0:
  assumes "delivers r \<sigma> bs \<sigma>'" and "length bs = k" and "k \<le> 4" and "\<forall>b\<in>set bs. 0x80 \<le> b"
  shows "\<exists>x' s'. unat s' = 7 * k \<and>
           length_loop r 0 0 0 \<sigma> =
             (case length_loop r k x' s' \<sigma>' of
                (res, \<sigma>2, ev) \<Rightarrow> (res, \<sigma>2, length_events 0 k @ ev))"
  using loop_continues [OF assms(1), of 0 0 0] assms(2-4) by auto



section \<open>Properties of the loop that need no invariant\<close>

lemma loop_no_close:
  "count_list (snd (snd (length_loop r i x s \<sigma>))) Call_Close_r = 0"
proof (induction "5 - i" arbitrary: i x s \<sigma>)
  case 0
  then show ?case
    by (simp add: length_loop.simps [of r i])
next
  case (Suc k)
  then have IH: "\<And>x s \<sigma>. count_list (snd (snd (length_loop r (Suc i) x s \<sigma>))) Call_Close_r = 0"
    by simp
  show ?case
    by (simp add: length_loop.simps [of r i] IH read_string_bytes_no_ReadByte split_beta
        split: sum.splits)
qed

lemma loop_failure_string:
  "fst (length_loop r i x s \<sigma>) = Some (str, Some e)
     \<Longrightarrow> str = [] \<or> e = New ''string is not valid UTF-8''"
proof (induction "5 - i" arbitrary: i x s \<sigma>)
  case 0
  then show ?case
    by (simp add: length_loop.simps [of r i])
next
  case (Suc k)
  have IH: "str = [] \<or> e = New ''string is not valid UTF-8''"
    if "fst (length_loop r (Suc i) x s \<sigma>) = Some (str, Some e)" for x s \<sigma>
    using Suc.hyps(1) [of "Suc i" x s \<sigma>] Suc.hyps(2) that by simp
  from Suc.prems show ?case
    by (auto simp add: length_loop.simps [of r i] split_beta
        split: sum.splits if_splits dest: IH read_string_bytes_result)
qed

lemma read_string_failure_string:
  "fst (read_string r \<sigma>) = (str, Some e) \<Longrightarrow> str = [] \<or> e = New ''string is not valid UTF-8''"
  using loop_failure_string [of r 0 0 0 \<sigma> str e]
  by (auto simp add: read_string_def split: prod.splits option.splits)

lemma loop_success_valid:
  "fst (length_loop r i x s \<sigma>) = Some (str, None) \<Longrightarrow> utf8_Valid str"
proof (induction "5 - i" arbitrary: i x s \<sigma>)
  case 0
  then show ?case
    by (simp add: length_loop.simps [of r i])
next
  case (Suc k)
  have IH: "utf8_Valid str"
    if "fst (length_loop r (Suc i) x s \<sigma>) = Some (str, None)" for x s \<sigma>
    using Suc.hyps(1) [of "Suc i" x s \<sigma>] Suc.hyps(2) that by simp
  from Suc.prems show ?case
    by (auto simp add: length_loop.simps [of r i] split_beta
        split: sum.splits if_splits dest: IH read_string_bytes_success)
qed

lemma read_string_success_valid:
  "fst (read_string r \<sigma>) = (str, None) \<Longrightarrow> utf8_Valid str"
  using loop_success_valid [of r 0 0 0 \<sigma> str]
  by (auto simp add: read_string_def split: prod.splits option.splits)

lemma read_string_no_close:
  "count_list (snd (snd (read_string r \<sigma>))) Call_Close_r = 0"
  using loop_no_close [of r 0 0 0 \<sigma>]
  by (auto simp add: read_string_def split: prod.splits option.splits)

text \<open>The function literal after the loop has decoded a length.\<close>

lemma read_string_terminal:
  "decodes_length r \<sigma> k x \<sigma>1
     \<Longrightarrow> read_string r \<sigma> =
         (fst (read_string_bytes r x \<sigma>1), fst (snd (read_string_bytes r x \<sigma>1)),
          length_events 0 k @ string_events x)"
  by (simp add: decodes_length_def read_string_def split_beta read_string_bytes_events)

text \<open>Then the result of the single \<^verbatim>\<open>Read\<close> decides what the function literal returns.\<close>

lemma read_string_after_length:
  assumes "decodes_length r \<sigma> k x \<sigma>1" and "Read r (unat x) \<sigma>1 = ((stored, n, err), \<sigma>2)"
    and "buf = take (unat x) stored @ replicate (unat x - length stored) 0"
  shows "read_string r \<sigma> =
     (case err of
        Some e \<Rightarrow> ([], Some (Errorf ''failed to read string bytes: %w'' e))
      | None \<Rightarrow> (buf, if utf8_Valid buf then None else Some (New ''string is not valid UTF-8'')),
      \<sigma>2, length_events 0 k @ string_events x)"
  using assms(2,3)
  by (simp add: read_string_terminal [OF assms(1)] read_string_bytes_def Let_def
      split: option.splits)

section \<open>The deferred close\<close>

lemma read_string_bytes_Close:
  "read_string_bytes (r\<lparr>Close := c\<rparr>) x \<sigma> = read_string_bytes r x \<sigma>"
  by (simp add: read_string_bytes_def)

lemma length_loop_Close:
  "length_loop (r\<lparr>Close := c\<rparr>) i x s \<sigma> = length_loop r i x s \<sigma>"
proof (induction "5 - i" arbitrary: i x s \<sigma>)
  case 0
  then show ?case
    by (simp add: length_loop.simps [of _ i])
next
  case (Suc k)
  from Suc.hyps(2) have lt: "i < 5"
    by simp
  have IH: "length_loop (r\<lparr>Close := c\<rparr>) (i + 1) x s \<sigma> = length_loop r (i + 1) x s \<sigma>" for x s \<sigma>
    using Suc.hyps(1) [of "i + 1" x s \<sigma>] Suc.hyps(2) by simp
  show ?case
    by (simp add: length_loop.simps [of _ i] lt IH read_string_bytes_Close del: One_nat_def
        split: prod.splits sum.splits)
qed

lemma read_string_Close: "read_string (r\<lparr>Close := c\<rparr>) \<sigma> = read_string r \<sigma>"
  by (simp add: read_string_def length_loop_Close)

section \<open>Decoding an encoded length\<close>

lemma put_uvarint_length:
  "i \<le> 4 \<Longrightarrow> unat y * 2 ^ (7 * i) < 2 ^ 32
     \<Longrightarrow> 1 \<le> length (put_uvarint y) \<and> i + length (put_uvarint y) \<le> 5"
proof (induction y arbitrary: i rule: put_uvarint.induct)
  case (1 y)
  show ?case
  proof (cases "y < 0x80")
    case True
    with "1.prems" show ?thesis
      by (simp add: put_uvarint.simps [of y])
  next
    case False
    have "i < 4" and "unat (drop_bit 7 y) * 2 ^ (7 * (i + 1)) < 2 ^ 32"
      using more_iterations [OF False "1.prems"(2) "1.prems"(1)] by simp_all
    with False have "i + 1 + length (put_uvarint (drop_bit 7 y)) \<le> 5"
      using "1.IH" [of "i + 1"] by simp
    with False show ?thesis
      by (simp add: put_uvarint.simps [of y])
  qed
qed

text \<open>
  The loop in iteration \<open>i\<close>, with shift \<open>7 * i\<close> and accumulator \<open>x\<close>, on a reader that
  delivers the encoding of \<open>y\<close>: it puts \<open>y\<close> at bit \<open>7 * i\<close> of \<open>x\<close> and reads the string.
\<close>

lemma loop_decodes:
  "delivers r \<sigma> (put_uvarint y) \<sigma>' \<Longrightarrow> i \<le> 4 \<Longrightarrow> unat s = 7 * i
     \<Longrightarrow> unat y * 2 ^ (7 * i) < 2 ^ 32
     \<Longrightarrow> length_loop r i x s \<sigma> =
         (case read_string_bytes r (x OR push_bit (7 * i) y) \<sigma>' of
            (res, \<sigma>2, ev) \<Rightarrow> (Some res, \<sigma>2, length_events i (length (put_uvarint y)) @ ev))"
proof (induction y arbitrary: i x s \<sigma> rule: put_uvarint.induct)
  case (1 y)
  show ?case
  proof (cases "y < 0x80")
    case True
    with "1.prems"(1) have rb: "ReadByte r \<sigma> = (Inr (ucast y), \<sigma>')"
      by (auto simp add: put_uvarint.simps [of y] split: prod.splits sum.splits)
    have guard: "\<not> (s = 28 \<and> (ucast y :: byte) > 0x0f)"
      using "1.prems" shift_28 [of s i] last_iteration [of y i] no_overflow [of y] by auto
    from True "1.prems" rb guard show ?thesis
      by (auto simp add: length_loop.simps [of r i] put_uvarint.simps [of y] terminal ucast_small
          length_events_1 split: prod.splits)
  next
    case False
    let ?b = "ucast y OR 0x80 :: byte"
    let ?x' = "x OR push_bit (unat s) (ucast (?b AND 0x7f))"
    from False "1.prems"(1) obtain \<sigma>1 where rb: "ReadByte r \<sigma> = (Inr ?b, \<sigma>1)"
      and rest: "delivers r \<sigma>1 (put_uvarint (drop_bit 7 y)) \<sigma>'"
      by (auto simp add: put_uvarint.simps [of y] split: prod.splits sum.splits)
    have i4: "i < 4" and small: "unat (drop_bit 7 y) * 2 ^ (7 * (i + 1)) < 2 ^ 32"
      using more_iterations [OF False "1.prems"(4) "1.prems"(2)] by simp_all
    have s28: "s \<noteq> 28"
      using "1.prems"(3) i4 shift_28 [of s i] by simp
    have IH: "length_loop r (i + 1) ?x' (s + 7) \<sigma>1 =
         (case read_string_bytes r (?x' OR push_bit (7 * (i + 1)) (drop_bit 7 y)) \<sigma>' of
            (res, \<sigma>2, ev) \<Rightarrow>
              (Some res, \<sigma>2, length_events (i + 1) (length (put_uvarint (drop_bit 7 y))) @ ev))"
      using False rest i4 small shift_next [OF "1.prems"(3) i4]
      by (intro "1.IH") simp_all
    have value_eq: "?x' OR push_bit (7 * (i + 1)) (drop_bit 7 y) = x OR push_bit (7 * i) y"
    proof -
      have "push_bit (7 * i) (take_bit 7 y) OR push_bit (7 * (i + 1)) (drop_bit 7 y)
          = push_bit (7 * i) (take_bit 7 y OR push_bit 7 (drop_bit 7 y))"
        by (simp add: add.commute)
      then show ?thesis
        by (simp add: payload "1.prems"(3) recompose or.assoc)
    qed
    have IH': "length_loop r (Suc i) ?x' (s + 7) \<sigma>1 =
         (case read_string_bytes r (x OR push_bit (7 * i) y) \<sigma>' of
            (res, \<sigma>2, ev) \<Rightarrow>
              (Some res, \<sigma>2, length_events (Suc i) (length (put_uvarint (drop_bit 7 y))) @ ev))"
      using IH by (simp only: value_eq Suc_eq_plus1)
    from False rb s28 i4 show ?thesis
      by (simp add: length_loop.simps [of r i] put_uvarint.simps [of y] not_terminal IH'
          length_events_Suc split: prod.splits)
  qed
qed

text \<open>
  C1: for every 32-bit value \<open>x\<close>, on a reader that delivers the varint encoding of \<open>x\<close>
  (which has 1 to 5 bytes), the loop of \<^verbatim>\<open>Hello\<close> calls \<^verbatim>\<open>ReadByte\<close> once for each byte of
  the encoding and no more, and goes on to read a string of exactly \<open>x\<close> bytes.
\<close>

theorem varint_round_trip:
  "delivers r \<sigma> (put_uvarint x) \<sigma>'
     \<Longrightarrow> decodes_length r \<sigma> (length (put_uvarint x)) x \<sigma>'
         \<and> 1 \<le> length (put_uvarint x) \<and> length (put_uvarint x) \<le> 5"
proof -
  assume d: "delivers r \<sigma> (put_uvarint x) \<sigma>'"
  have bound: "unat x * 2 ^ (7 * 0) < 2 ^ 32"
    using unsigned_less [of x, where 'a = nat] by simp
  have "decodes_length r \<sigma> (length (put_uvarint x)) x \<sigma>'"
    using loop_decodes [OF d, of 0 0 0] bound by (simp add: decodes_length_def)
  moreover have "1 \<le> length (put_uvarint x) \<and> length (put_uvarint x) \<le> 5"
    using put_uvarint_length [of 0 x] bound by simp
  ultimately show ?thesis by simp
qed

lemma put_uvarint_300: "put_uvarint 300 = [0xAC, 0x02]"
  by code_simp

theorem varint_round_trip_witness:
  "decodes_length bytes_Reader [0xAC, 0x02, 0x41] 2 300 [0x41]"
  using varint_round_trip [of bytes_Reader "[0xAC, 0x02, 0x41]" 300 "[0x41]"]
  by (simp add: put_uvarint_300 numeral_2_eq_2)

section \<open>Failures of the length decode\<close>

text \<open>
  C3: when the first four bytes read all have the continuation bit set (they are
  \<open>0x80\<close> or more) and the fifth byte read is greater than \<open>0x0f\<close>, the decoder fails with
  "string length overflows a 32-bit integer" after five calls of \<^verbatim>\<open>ReadByte\<close>, whether or not
  the continuation bit of the fifth byte is set.
\<close>

theorem fifth_byte_overflow:
  "delivers r \<sigma> [b1, b2, b3, b4, b5] \<sigma>'
     \<Longrightarrow> 0x80 \<le> b1 \<Longrightarrow> 0x80 \<le> b2 \<Longrightarrow> 0x80 \<le> b3 \<Longrightarrow> 0x80 \<le> b4 \<Longrightarrow> 0x0f < b5
     \<Longrightarrow> read_string r \<sigma> =
         (([], Some (New ''string length overflows a 32-bit integer'')), \<sigma>', length_events 0 5)"
proof -
  assume d: "delivers r \<sigma> [b1, b2, b3, b4, b5] \<sigma>'"
    and c: "0x80 \<le> b1" "0x80 \<le> b2" "0x80 \<le> b3" "0x80 \<le> b4" and o: "0x0f < b5"
  from d obtain \<sigma>4 where d4: "delivers r \<sigma> [b1, b2, b3, b4] \<sigma>4"
    and rb: "ReadByte r \<sigma>4 = (Inr b5, \<sigma>')"
    by (auto split: prod.splits sum.splits)
  from c obtain x' s' where s': "unat s' = 7 * 4"
    and loop: "length_loop r 0 0 0 \<sigma> =
      (case length_loop r 4 x' s' \<sigma>4 of
         (res, \<sigma>2, ev) \<Rightarrow> (res, \<sigma>2, length_events 0 4 @ ev))"
    using loop_continues_from_0 [OF d4, of 4] by auto
  from s' have "s' = 28"
    using shift_28 [of s' 4] by simp
  with rb o have "length_loop r 4 x' s' \<sigma>4 =
      (Some ([], Some (New ''string length overflows a 32-bit integer'')), \<sigma>', byte_events 4)"
    by (simp add: step_overflow)
  with loop have "length_loop r 0 0 0 \<sigma> =
      (Some ([], Some (New ''string length overflows a 32-bit integer'')), \<sigma>',
       length_events 0 4 @ length_events 4 1)"
    by (simp add: length_events_1)
  then show ?thesis
    using length_events_append [of 0 4 1] by (simp add: read_string_def)
qed

theorem fifth_byte_overflow_witness:
  "read_string bytes_Reader [0x80, 0x80, 0x80, 0x80, 0x10, 0x41] =
     (([], Some (New ''string length overflows a 32-bit integer'')), [0x41], length_events 0 5)
   \<and> read_string bytes_Reader [0xff, 0xff, 0xff, 0xff, 0x90] =
     (([], Some (New ''string length overflows a 32-bit integer'')), [], length_events 0 5)"
  using fifth_byte_overflow [of bytes_Reader "[0x80, 0x80, 0x80, 0x80, 0x10, 0x41]" "0x80" "0x80" "0x80" "0x80" "0x10" "[0x41]"]
    fifth_byte_overflow [of bytes_Reader "[0xff, 0xff, 0xff, 0xff, 0x90]" "0xff" "0xff" "0xff" "0xff" "0x90" "[]"]
  by simp

text \<open>
  C4: when \<^verbatim>\<open>ReadByte\<close> fails in iteration \<open>i\<close> (after \<open>i < 5\<close> bytes with the continuation bit
  set), the decoder fails with that error wrapped in "failed to read string length byte";
  in iteration 0 the error is wrapped as it is, also \<^verbatim>\<open>io.EOF\<close>; in a later iteration
  \<^verbatim>\<open>io.EOF\<close> is replaced by \<^verbatim>\<open>io.ErrUnexpectedEOF\<close> before it is wrapped. A stream that ends
  after two continuation bytes fails in this way and yields no length.
\<close>

theorem length_byte_read_failure:
  "delivers r \<sigma> bs \<sigma>' \<Longrightarrow> length bs < 5 \<Longrightarrow> \<forall>b\<in>set bs. 0x80 \<le> b
     \<Longrightarrow> ReadByte r \<sigma>' = (Inl err, \<sigma>1)
     \<Longrightarrow> read_string r \<sigma> =
         (([], Some (Errorf ''failed to read string length byte: %w''
                       (if bs \<noteq> [] \<and> err = EOF then ErrUnexpectedEOF else err))),
          \<sigma>1, length_events 0 (length bs + 1))"
proof -
  assume d: "delivers r \<sigma> bs \<sigma>'" and l: "length bs < 5" and c: "\<forall>b\<in>set bs. 0x80 \<le> b"
    and rb: "ReadByte r \<sigma>' = (Inl err, \<sigma>1)"
  from l c obtain x' s' where loop: "length_loop r 0 0 0 \<sigma> =
      (case length_loop r (length bs) x' s' \<sigma>' of
         (res, \<sigma>2, ev) \<Rightarrow> (res, \<sigma>2, length_events 0 (length bs) @ ev))"
    using loop_continues_from_0 [OF d, of "length bs"] by auto
  from rb l have "length_loop r (length bs) x' s' \<sigma>' =
      (Some ([], Some (Errorf ''failed to read string length byte: %w''
                         (if 0 < length bs \<and> err = EOF then ErrUnexpectedEOF else err))),
       \<sigma>1, length_events (length bs) 1)"
    by (simp add: step_error length_events_1)
  with loop show ?thesis
    using length_events_append [of 0 "length bs" 1] by (simp add: read_string_def)
qed

theorem length_byte_read_failure_witness:
  "read_string bytes_Reader [] =
     (([], Some (Errorf ''failed to read string length byte: %w'' EOF)), [], length_events 0 1)
   \<and> read_string bytes_Reader [0x80, 0x80] =
     (([], Some (Errorf ''failed to read string length byte: %w'' ErrUnexpectedEOF)), [],
      length_events 0 3)"
  using length_byte_read_failure [of bytes_Reader "[]" "[]" "[]" EOF "[]"]
    length_byte_read_failure [of bytes_Reader "[0x80, 0x80]" "[0x80, 0x80]" "[]" EOF "[]"]
  by (simp add: numeral_3_eq_3)


text \<open>
  C10: the decoder accepts encodings that are not minimal: the two bytes \<open>0x80, 0x00\<close>
  and the single byte \<open>0x00\<close> are both decoded to the length 0, so different byte
  sequences give the same length and the bytes read cannot be recovered from it.
\<close>

theorem non_minimal_length_accepted:
  "delivers r \<sigma> [0x80, 0x00] \<sigma>' \<Longrightarrow> delivers r \<tau> [0x00] \<tau>'
     \<Longrightarrow> decodes_length r \<sigma> 2 0 \<sigma>' \<and> decodes_length r \<tau> 1 0 \<tau>'
         \<and> [0x80, 0x00] \<noteq> [0x00 :: byte]"
proof -
  assume d2: "delivers r \<sigma> [0x80, 0x00] \<sigma>'" and d1: "delivers r \<tau> [0x00] \<tau>'"
  from d2 obtain \<sigma>1 where rb1: "ReadByte r \<sigma> = (Inr 0x80, \<sigma>1)"
    and rb2: "ReadByte r \<sigma>1 = (Inr 0x00, \<sigma>')"
    by (auto split: prod.splits sum.splits)
  from d1 have rb: "ReadByte r \<tau> = (Inr 0x00, \<tau>')"
    by (auto split: prod.splits sum.splits)
  have "length_loop r 0 0 0 \<sigma> =
      (case length_loop r (Suc 0) 0 7 \<sigma>1 of (res, \<sigma>2, ev) \<Rightarrow> (res, \<sigma>2, byte_events 0 @ ev))"
    using step_continue [OF rb1, of 0 0 0] by simp
  moreover have "length_loop r (Suc 0) 0 7 \<sigma>1 =
      (case read_string_bytes r 0 \<sigma>' of (res, \<sigma>2, ev) \<Rightarrow> (Some res, \<sigma>2, byte_events 1 @ ev))"
    using step_terminal [OF rb2, of "Suc 0" 7 0] by simp
  ultimately have "decodes_length r \<sigma> 2 0 \<sigma>'"
    by (simp add: decodes_length_def length_events_Suc length_events_0 numeral_2_eq_2 split_beta)
  moreover have "decodes_length r \<tau> 1 0 \<tau>'"
    by (simp add: decodes_length_def step_terminal [OF rb] length_events_1 split_beta)
  ultimately show ?thesis
    by simp
qed

theorem non_minimal_length_accepted_witness:
  "decodes_length bytes_Reader [0x80, 0x00, 0x41] 2 0 [0x41]
   \<and> decodes_length bytes_Reader [0x00, 0x41] 1 0 [0x41]"
  using non_minimal_length_accepted [of bytes_Reader "[0x80, 0x00, 0x41]" "[0x41]" "[0x00, 0x41]" "[0x41]"]
  by simp

section \<open>Reading the string\<close>

text \<open>
  The claim C2 as stated fails: on the stream \<open>0x05, h, e, l\<close> the single \<^verbatim>\<open>Read\<close> into the
  5-byte buffer returns 3 bytes and no error, and the decoder returns the buffer, the
  unread part still zero, with no error.
\<close>

theorem short_read_accepted:
  "Read bytes_Reader 5 [0x68, 0x65, 0x6c] = (([0x68, 0x65, 0x6c], 3, None), [])
   \<and> read_string bytes_Reader [0x05, 0x68, 0x65, 0x6c] =
       (([0x68, 0x65, 0x6c, 0, 0], None), [], length_events 0 1 @ string_events 5)"
  by code_simp

text \<open>
  C2 (amended): once the length \<open>x\<close> is decoded, the function literal calls \<^verbatim>\<open>Read\<close> once
  on the buffer of \<open>x\<close> bytes and does not look at the count it reports. When \<^verbatim>\<open>Read\<close>
  reports an error, the decode fails with that error wrapped in "failed to read string
  bytes". When it reports none, the decode goes on with the buffer as it is, the bytes
  not stored still zero, whatever the count: it returns the buffer, with no error when
  the buffer is valid UTF-8. In both cases the state is the one after that single
  \<^verbatim>\<open>Read\<close>, and no other \<^verbatim>\<open>Read\<close> is among the events.
\<close>

theorem read_error_decides_failure:
  "decodes_length r \<sigma> k x \<sigma>1 \<Longrightarrow> Read r (unat x) \<sigma>1 = ((stored, n, err), \<sigma>2)
     \<Longrightarrow> buf = take (unat x) stored @ replicate (unat x - length stored) 0
     \<Longrightarrow> read_string r \<sigma> =
         (case err of
            Some e \<Rightarrow> ([], Some (Errorf ''failed to read string bytes: %w'' e))
          | None \<Rightarrow> (buf, if utf8_Valid buf then None else Some (New ''string is not valid UTF-8'')),
          \<sigma>2, length_events 0 k @ string_events x)
       \<and> count_list (snd (snd (read_string r \<sigma>))) (Call_Read (unat x)) = 1"
proof -
  assume d: "decodes_length r \<sigma> k x \<sigma>1"
    and rd: "Read r (unat x) \<sigma>1 = ((stored, n, err), \<sigma>2)"
    and buf: "buf = take (unat x) stored @ replicate (unat x - length stored) 0"
  have eq: "read_string r \<sigma> =
      (case err of
         Some e \<Rightarrow> ([], Some (Errorf ''failed to read string bytes: %w'' e))
       | None \<Rightarrow> (buf, if utf8_Valid buf then None else Some (New ''string is not valid UTF-8'')),
       \<sigma>2, length_events 0 k @ string_events x)"
    by (rule read_string_after_length [OF d rd buf])
  then have "count_list (snd (snd (read_string r \<sigma>))) (Call_Read (unat x)) = 1"
    by (simp add: string_events_def)
  with eq show ?thesis
    by simp
qed

lemma decodes_length_5:
  "decodes_length bytes_Reader [0x05] (Suc 0) 5 []"
  "decodes_length bytes_Reader [0x05, 0x68, 0x65, 0x6c] (Suc 0) 5 [0x68, 0x65, 0x6c]"
  by code_simp+

lemma buffer_after_short_read:
  "[0x68, 0x65, 0x6c, 0, 0] =
     take (unat (5 :: 32 word)) [0x68, 0x65, 0x6c]
     @ replicate (unat (5 :: 32 word) - length [0x68, 0x65, 0x6c :: byte]) (0 :: byte)"
  "utf8_Valid [0x68, 0x65, 0x6c, 0, 0]"
  by code_simp+

theorem read_error_decides_failure_witness:
  "read_string bytes_Reader [0x05] =
     (([], Some (Errorf ''failed to read string bytes: %w'' EOF)), [],
      length_events 0 1 @ string_events 5)
   \<and> read_string bytes_Reader [0x05, 0x68, 0x65, 0x6c] =
     (([0x68, 0x65, 0x6c, 0, 0], None), [], length_events 0 1 @ string_events 5)"
proof -
  have "Read bytes_Reader (unat (5 :: 32 word)) [] = (([], 0, Some EOF), [])"
    by simp
  from read_error_decides_failure [OF decodes_length_5(1) this refl]
  have 1: "read_string bytes_Reader [0x05] =
     (([], Some (Errorf ''failed to read string bytes: %w'' EOF)), [],
      length_events 0 1 @ string_events 5)"
    by simp
  have "Read bytes_Reader (unat (5 :: 32 word)) [0x68, 0x65, 0x6c] =
      (([0x68, 0x65, 0x6c], 3, None), [])"
    by simp
  from read_error_decides_failure [OF decodes_length_5(2) this buffer_after_short_read(1)]
  have 2: "read_string bytes_Reader [0x05, 0x68, 0x65, 0x6c] =
     (([0x68, 0x65, 0x6c, 0, 0], None), [], length_events 0 1 @ string_events 5)"
    by (simp add: buffer_after_short_read(2))
  from 1 2 show ?thesis
    by simp
qed

text \<open>
  C5: when the length \<open>x\<close> is decoded, \<^verbatim>\<open>Read\<close> reports no error and the buffer is not
  valid UTF-8, the decoder returns the bytes of the buffer as a string together with the
  error "string is not valid UTF-8".
\<close>

theorem invalid_utf8_returns_raw_bytes:
  "decodes_length r \<sigma> k x \<sigma>1 \<Longrightarrow> Read r (unat x) \<sigma>1 = ((stored, n, None), \<sigma>2)
     \<Longrightarrow> buf = take (unat x) stored @ replicate (unat x - length stored) 0
     \<Longrightarrow> \<not> utf8_Valid buf
     \<Longrightarrow> read_string r \<sigma> =
         ((buf, Some (New ''string is not valid UTF-8'')), \<sigma>2,
          length_events 0 k @ string_events x)"
  by (simp add: read_string_terminal) (simp add: read_string_bytes_def Let_def)

lemma decodes_length_example: "decodes_length bytes_Reader [0x01, 0x80] (Suc 0) 1 [0x80]"
  by code_simp

theorem invalid_utf8_returns_raw_bytes_witness:
  "read_string bytes_Reader [0x01, 0x80] =
     (([0x80], Some (New ''string is not valid UTF-8'')), [], length_events 0 1 @ string_events 1)"
  using invalid_utf8_returns_raw_bytes [of bytes_Reader "[0x01, 0x80]" 1 1 "[0x80]" "[0x80]" 1 "[]" "[0x80]"]
  by (simp add: decodes_length_example first_def)

text \<open>
  The claim C7 as stated fails: \<^verbatim>\<open>Hello\<close> calls \<^verbatim>\<open>Read\<close> also for the empty buffer, and a
  reader at the end of its data may answer that call with \<^verbatim>\<open>io.EOF\<close>, as Go's
  \<^verbatim>\<open>bytes.Reader\<close> does. On the stream that holds the byte \<open>0x00\<close> and nothing else the
  decoder fails.
\<close>

theorem zero_length_read_may_fail:
  "read_string bytes_Reader [0x00] =
     (([], Some (Errorf ''failed to read string bytes: %w'' EOF)), [],
      length_events 0 1 @ string_events 0)"
  by code_simp

text \<open>
  C7 (amended): when the next byte is \<open>0x00\<close> and the \<^verbatim>\<open>Read\<close> into the empty buffer
  reports no error, the decoder returns the empty string and no error, after one call of
  \<^verbatim>\<open>ReadByte\<close>.
\<close>

theorem zero_length_string:
  "ReadByte r \<sigma> = (Inr 0x00, \<sigma>1) \<Longrightarrow> Read r 0 \<sigma>1 = ((stored, n, None), \<sigma>2)
     \<Longrightarrow> read_string r \<sigma> = (([], None), \<sigma>2, length_events 0 1 @ string_events 0)"
proof -
  assume rb: "ReadByte r \<sigma> = (Inr 0x00, \<sigma>1)" and rd: "Read r 0 \<sigma>1 = ((stored, n, None), \<sigma>2)"
  have "length_loop r 0 0 0 \<sigma> =
      (case read_string_bytes r 0 \<sigma>1 of (res, \<sigma>2, ev) \<Rightarrow> (Some res, \<sigma>2, byte_events 0 @ ev))"
    using step_terminal [OF rb, of 0 0 0] by simp
  moreover from rd have "read_string_bytes r 0 \<sigma>1 = (([], None), \<sigma>2, string_events 0)"
    by (simp add: read_string_bytes_def string_events_def)
  ultimately show ?thesis
    by (simp add: read_string_def length_events_1)
qed

theorem zero_length_string_witness:
  "read_string bytes_Reader [0x00, 0x41] = (([], None), [0x41], length_events 0 1 @ string_events 0)"
  using zero_length_string [of bytes_Reader "[0x00, 0x41]" "[0x41]" "[]" 0 "[0x41]"]
  by simp

section \<open>The results of \<^verbatim>\<open>Hello\<close>\<close>

text \<open>
  The claim C6 as stated fails: when the bytes read are not valid UTF-8, \<^verbatim>\<open>Hello\<close>
  returns them, not the empty string, together with the wrapped error.
\<close>

theorem raw_string_with_error:
  "fst (Hello bytes_Invoker [0x01, 0x80]) =
     ([0x80], Some (Errorf ''failed to read result 0: %w'' (New ''string is not valid UTF-8'')))"
  by code_simp

text \<open>
  C6 (amended): when \<^verbatim>\<open>Invoke\<close> fails, \<^verbatim>\<open>Hello\<close> returns the empty string and the error
  wrapped in "failed to invoke `hello`". Otherwise it returns the string of the decoder,
  with a nil error when the decoder succeeded (the string is then valid UTF-8) and with
  the decoder's error wrapped in "failed to read result 0" when it failed; on failure the
  string is empty, except for the error "string is not valid UTF-8", where it holds the
  bytes read. In particular, once the length \<open>x\<close> is decoded and \<^verbatim>\<open>Read\<close> reports no error,
  \<^verbatim>\<open>Hello\<close> returns the whole buffer of \<open>x\<close> bytes, with a nil error when it is valid
  UTF-8.
\<close>

theorem Hello_results:
  "(Invoke wrpc ''wrpc-examples:hello/handler'' ''hello'' [] \<sigma> = (Inl err, \<sigma>1)
      \<longrightarrow> fst (Hello wrpc \<sigma>) = ([], Some (Errorf ''failed to invoke `hello`: %w'' err)))
   \<and> (Invoke wrpc ''wrpc-examples:hello/handler'' ''hello'' [] \<sigma> = (Inr (w, r), \<sigma>1)
      \<longrightarrow> (case fst (read_string r (snd (IndexWriteCloser.Close w \<sigma>1))) of
             (str, None) \<Rightarrow> fst (Hello wrpc \<sigma>) = (str, None) \<and> utf8_Valid str
           | (str, Some e) \<Rightarrow>
               fst (Hello wrpc \<sigma>) = (str, Some (Errorf ''failed to read result 0: %w'' e))
               \<and> (str = [] \<or> e = New ''string is not valid UTF-8'')))
   \<and> (Invoke wrpc ''wrpc-examples:hello/handler'' ''hello'' [] \<sigma> = (Inr (w, r), \<sigma>1)
        \<and> decodes_length r (snd (IndexWriteCloser.Close w \<sigma>1)) k x \<sigma>3
        \<and> Read r (unat x) \<sigma>3 = ((stored, n, rerr), \<sigma>4)
        \<and> buf = take (unat x) stored @ replicate (unat x - length stored) 0
      \<longrightarrow> fst (Hello wrpc \<sigma>) =
            (case rerr of
               Some e \<Rightarrow>
                 ([], Some (Errorf ''failed to read result 0: %w''
                              (Errorf ''failed to read string bytes: %w'' e)))
             | None \<Rightarrow>
                 (buf, if utf8_Valid buf then None
                       else Some (Errorf ''failed to read result 0: %w''
                                    (New ''string is not valid UTF-8'')))))"
proof (intro conjI impI)
  assume "Invoke wrpc ''wrpc-examples:hello/handler'' ''hello'' [] \<sigma> = (Inl err, \<sigma>1)"
  then show "fst (Hello wrpc \<sigma>) = ([], Some (Errorf ''failed to invoke `hello`: %w'' err))"
    by (simp add: Hello_def)
next
  assume inv: "Invoke wrpc ''wrpc-examples:hello/handler'' ''hello'' [] \<sigma> = (Inr (w, r), \<sigma>1)"
  obtain str res where rs: "fst (read_string r (snd (IndexWriteCloser.Close w \<sigma>1))) = (str, res)"
    by (cases "fst (read_string r (snd (IndexWriteCloser.Close w \<sigma>1)))")
  show "case fst (read_string r (snd (IndexWriteCloser.Close w \<sigma>1))) of
          (str, None) \<Rightarrow> fst (Hello wrpc \<sigma>) = (str, None) \<and> utf8_Valid str
        | (str, Some e) \<Rightarrow>
            fst (Hello wrpc \<sigma>) = (str, Some (Errorf ''failed to read result 0: %w'' e))
            \<and> (str = [] \<or> e = New ''string is not valid UTF-8'')"
  proof (cases res)
    case None
    with rs have "utf8_Valid str"
      by (auto dest: read_string_success_valid)
    with inv rs None show ?thesis
      by (simp add: Hello_def split_beta)
  next
    case (Some e)
    with rs have "str = [] \<or> e = New ''string is not valid UTF-8''"
      by (auto dest: read_string_failure_string)
    with inv rs Some show ?thesis
      by (simp add: Hello_def split_beta)
  qed
next
  assume a: "Invoke wrpc ''wrpc-examples:hello/handler'' ''hello'' [] \<sigma> = (Inr (w, r), \<sigma>1)
      \<and> decodes_length r (snd (IndexWriteCloser.Close w \<sigma>1)) k x \<sigma>3
      \<and> Read r (unat x) \<sigma>3 = ((stored, n, rerr), \<sigma>4)
      \<and> buf = take (unat x) stored @ replicate (unat x - length stored) 0"
  then have d: "decodes_length r (snd (IndexWriteCloser.Close w \<sigma>1)) k x \<sigma>3"
    and rd: "Read r (unat x) \<sigma>3 = ((stored, n, rerr), \<sigma>4)"
    and bf: "buf = take (unat x) stored @ replicate (unat x - length stored) 0"
    by simp_all
  have "read_string r (snd (IndexWriteCloser.Close w \<sigma>1)) =
      (case rerr of
         Some e \<Rightarrow> ([], Some (Errorf ''failed to read string bytes: %w'' e))
       | None \<Rightarrow> (buf, if utf8_Valid buf then None else Some (New ''string is not valid UTF-8'')),
       \<sigma>4, length_events 0 k @ string_events x)"
    by (rule read_string_after_length [OF d rd bf])
  with a show "fst (Hello wrpc \<sigma>) =
      (case rerr of
         Some e \<Rightarrow>
           ([], Some (Errorf ''failed to read result 0: %w''
                        (Errorf ''failed to read string bytes: %w'' e)))
       | None \<Rightarrow>
           (buf, if utf8_Valid buf then None
                 else Some (Errorf ''failed to read result 0: %w''
                              (New ''string is not valid UTF-8''))))"
    by (simp add: Hello_def split_beta split: option.splits)
qed

lemma read_string_examples:
  "read_string bytes_Reader [0x05, 0x68, 0x65, 0x6c, 0x6c, 0x6f] =
     (([0x68, 0x65, 0x6c, 0x6c, 0x6f], None), [], length_events 0 1 @ string_events 5)"
  "read_string bytes_Reader [0x80] =
     (([], Some (Errorf ''failed to read string length byte: %w'' ErrUnexpectedEOF)), [],
      length_events 0 2)"
  "read_string bytes_Reader [0x01, 0x80] =
     (([0x80], Some (New ''string is not valid UTF-8'')), [], length_events 0 1 @ string_events 1)"
  by code_simp+

lemma decodes_length_6:
  "decodes_length bytes_Reader [0x06, 0x68, 0xc3, 0xa9, 0x6c, 0x6c, 0x6f] (Suc 0) 6
     [0x68, 0xc3, 0xa9, 0x6c, 0x6c, 0x6f]"
  "[0x68, 0xc3, 0xa9, 0x6c, 0x6c, 0x6f] =
     take (unat (6 :: 32 word)) [0x68, 0xc3, 0xa9, 0x6c, 0x6c, 0x6f]
     @ replicate (unat (6 :: 32 word) - length [0x68, 0xc3, 0xa9, 0x6c, 0x6c, 0x6f :: byte]) (0 :: byte)"
  "utf8_Valid [0x68, 0xc3, 0xa9, 0x6c, 0x6c, 0x6f]"
  by code_simp+

theorem Hello_results_witness:
  "fst (Hello \<lparr>Invoke = \<lambda>instance name buf s. (Inl (Other ''no responders''), s)\<rparr> ([] :: byte list))
     = ([], Some (Errorf ''failed to invoke `hello`: %w'' (Other ''no responders'')))
   \<and> fst (Hello bytes_Invoker [0x05, 0x68, 0x65, 0x6c, 0x6c, 0x6f]) = ([0x68, 0x65, 0x6c, 0x6c, 0x6f], None)
   \<and> fst (Hello bytes_Invoker [0x80])
     = ([], Some (Errorf ''failed to read result 0: %w''
                    (Errorf ''failed to read string length byte: %w'' ErrUnexpectedEOF)))
   \<and> fst (Hello bytes_Invoker [0x06, 0x68, 0xc3, 0xa9, 0x6c, 0x6c, 0x6f])
     = ([0x68, 0xc3, 0xa9, 0x6c, 0x6c, 0x6f], None)"
proof -
  have rd: "Read bytes_Reader (unat (6 :: 32 word)) [0x68, 0xc3, 0xa9, 0x6c, 0x6c, 0x6f] =
      (([0x68, 0xc3, 0xa9, 0x6c, 0x6c, 0x6f], 6, None), [])"
    by simp
  have "fst (Hello bytes_Invoker [0x06, 0x68, 0xc3, 0xa9, 0x6c, 0x6c, 0x6f])
      = ([0x68, 0xc3, 0xa9, 0x6c, 0x6c, 0x6f], None)"
    using Hello_results [of bytes_Invoker "[0x06, 0x68, 0xc3, 0xa9, 0x6c, 0x6c, 0x6f]" EOF
        "[0x06, 0x68, 0xc3, 0xa9, 0x6c, 0x6c, 0x6f]" discard_Writer bytes_Reader "Suc 0" 6
        "[0x68, 0xc3, 0xa9, 0x6c, 0x6c, 0x6f]" "[0x68, 0xc3, 0xa9, 0x6c, 0x6c, 0x6f]" 6 None "[]"
        "[0x68, 0xc3, 0xa9, 0x6c, 0x6c, 0x6f]"]
      decodes_length_6 rd
    by simp
  moreover have "fst (Hello \<lparr>Invoke = \<lambda>instance name buf s. (Inl (Other ''no responders''), s)\<rparr>
        ([] :: byte list))
      = ([], Some (Errorf ''failed to invoke `hello`: %w'' (Other ''no responders'')))"
    using Hello_results [of "\<lparr>Invoke = \<lambda>instance name buf s. (Inl (Other ''no responders''), s)\<rparr>"
        "[] :: byte list" "Other ''no responders''" "[]"]
    by simp
  moreover have "fst (Hello bytes_Invoker [0x05, 0x68, 0x65, 0x6c, 0x6c, 0x6f])
      = ([0x68, 0x65, 0x6c, 0x6c, 0x6f], None)"
    using Hello_results [of bytes_Invoker "[0x05, 0x68, 0x65, 0x6c, 0x6c, 0x6f]" EOF
        "[0x05, 0x68, 0x65, 0x6c, 0x6c, 0x6f]" discard_Writer bytes_Reader]
    by (simp add: read_string_examples)
  moreover have "fst (Hello bytes_Invoker [0x80])
      = ([], Some (Errorf ''failed to read result 0: %w''
                     (Errorf ''failed to read string length byte: %w'' ErrUnexpectedEOF)))"
    using Hello_results [of bytes_Invoker "[0x80]" EOF "[0x80]" discard_Writer bytes_Reader]
    by (simp add: read_string_examples)
  ultimately show ?thesis
    by simp
qed

text \<open>
  C8: when \<^verbatim>\<open>Invoke\<close> succeeds, \<^verbatim>\<open>Hello\<close> calls \<^verbatim>\<open>Close\<close> on the incoming stream exactly
  once, after the decoder and whatever the decoder returns: the state \<^verbatim>\<open>Hello\<close> leaves is
  the one that this call of \<^verbatim>\<open>Close\<close> returns for the state the decoder left, the events
  end with the call and, when it fails, the log entry of its error, and what \<^verbatim>\<open>Close\<close>
  returns has no influence on the string and the error that \<^verbatim>\<open>Hello\<close> returns.
\<close>

theorem incoming_stream_closed_once:
  "Invoke wrpc ''wrpc-examples:hello/handler'' ''hello'' [] \<sigma> = (Inr (w, r), \<sigma>1)
     \<Longrightarrow> Invoke wrpc' ''wrpc-examples:hello/handler'' ''hello'' [] \<sigma> =
           (Inr (w, r\<lparr>Close := close'\<rparr>), \<sigma>1)
     \<Longrightarrow> \<sigma>3 = fst (snd (read_string r (snd (IndexWriteCloser.Close w \<sigma>1))))
     \<Longrightarrow> count_list (snd (snd (Hello wrpc \<sigma>))) Call_Close_r = 1
         \<and> fst (Hello wrpc' \<sigma>) = fst (Hello wrpc \<sigma>)
         \<and> fst (snd (Hello wrpc \<sigma>)) = snd (IndexReadCloser.Close r \<sigma>3)
         \<and> fst (snd (Hello wrpc' \<sigma>)) = snd (close' \<sigma>3)
         \<and> snd (snd (Hello wrpc \<sigma>)) =
             [Call_Invoke ''wrpc-examples:hello/handler'' ''hello'', Call_Close_w]
             @ (case fst (IndexWriteCloser.Close w \<sigma>1) of
                  Some e \<Rightarrow> [Slog Debug ''failed to close outgoing stream''
                               [(''instance'', AStr ''wrpc-examples:hello/handler''),
                                (''name'', AStr ''hello''), (''err'', AErr e)]]
                | None \<Rightarrow> [])
             @ snd (snd (read_string r (snd (IndexWriteCloser.Close w \<sigma>1))))
             @ [Call_Close_r]
             @ (case fst (IndexReadCloser.Close r \<sigma>3) of
                  Some e \<Rightarrow> [Slog Error ''failed to close reader''
                               [(''instance'', AStr ''wrpc-examples:hello/handler''),
                                (''name'', AStr ''hello''), (''err'', AErr e)]]
                | None \<Rightarrow> [])"
  using read_string_no_close [of r "snd (IndexWriteCloser.Close w \<sigma>1)"]
  by (simp add: Hello_def read_string_Close split_beta split: option.splits)

theorem incoming_stream_closed_once_witness:
  "count_list (snd (snd (Hello bytes_Invoker [0x01, 0x80]))) Call_Close_r = 1
   \<and> fst (Hello \<lparr>Invoke = \<lambda>instance name buf s.
                  (Inr (discard_Writer,
                        bytes_Reader\<lparr>Close := \<lambda>s. (Some (Other ''broken pipe''), s @ [0xEE])\<rparr>), s)\<rparr>
             [0x01, 0x80])
       = fst (Hello bytes_Invoker [0x01, 0x80])
   \<and> fst (snd (Hello bytes_Invoker [0x01, 0x80])) = []
   \<and> fst (snd (Hello \<lparr>Invoke = \<lambda>instance name buf s.
                  (Inr (discard_Writer,
                        bytes_Reader\<lparr>Close := \<lambda>s. (Some (Other ''broken pipe''), s @ [0xEE])\<rparr>), s)\<rparr>
             [0x01, 0x80])) = [0xEE]"
  using incoming_stream_closed_once [of bytes_Invoker "[0x01, 0x80]" discard_Writer bytes_Reader
      "[0x01, 0x80]"
      "\<lparr>Invoke = \<lambda>instance name buf s.
          (Inr (discard_Writer,
                bytes_Reader\<lparr>Close := \<lambda>s. (Some (Other ''broken pipe''), s @ [0xEE])\<rparr>), s)\<rparr>"
      "\<lambda>s. (Some (Other ''broken pipe''), s @ [0xEE])" "[]"]
  by (simp add: read_string_examples count_Call_Close_r_events)

end
